theory Spec2Isabelle
  imports Main
begin

section \<open>Values\<close>

text \<open>
  The program is Python. Strings are \<^typ>\<open>string\<close>, read as sequences of code points below
  256. A \<open>datetime\<close> is a point on the time line, modelled by its distance from
  \<open>datetime.min\<close> in microseconds; the program stores datetimes and never computes with
  them. The values a keyword argument or an attribute of a namespace can hold are the
  \<open>object\<close>s below.
\<close>

type_synonym datetime = int

datatype object =
    PyNone
  | PyBool bool
  | PyInt int
  | PyStr string
  | PyDatetime datetime
  | PyList "object list"

section \<open>core/task.py: the class Task\<close>

text \<open>
  \<^verbatim>\<open>
  class Task:
      def __init__(self, id: int, name: str, start: datetime = None,
                   end: datetime = None, repeat: str = None,
                   tags: list[str] = [], **kwargs):
          self.id = id
          self.name = name
          self.start = start
          self.end = end
          self.repeat = repeat
          self.tags = tags
          self.attributes = kwargs
  \<close>
  The class has no other method. The fields carry the types of the annotations; \<open>None\<close>
  is the absent \<^typ>\<open>datetime option\<close> or \<^typ>\<open>string option\<close>. The fields \<open>id\<close> and
  \<open>end\<close> are primed because the plain names are taken, and the parameters are written
  \<open>id_arg\<close>, \<open>name_arg\<close>, ... to tell them from the fields. \<open>kwargs\<close> is the dictionary of the
  keyword arguments that name none of the six parameters. The default \<open>[]\<close> of \<open>tags\<close> is
  one list shared by the calls that leave \<open>tags\<close> out; nothing in the program changes it.
\<close>

record Task =
  id' :: int
  name :: string
  start :: "datetime option"
  end' :: "datetime option"
  repeat :: "string option"
  tags :: "string list"
  attributes :: "string \<rightharpoonup> object"

definition Task_init ::
  "int \<Rightarrow> string \<Rightarrow> datetime option \<Rightarrow> datetime option \<Rightarrow> string option \<Rightarrow> string list
     \<Rightarrow> (string \<rightharpoonup> object) \<Rightarrow> Task" where
  "Task_init id_arg name_arg start_arg end_arg repeat_arg tags_arg kwargs =
     \<lparr>id' = id_arg, name = name_arg, start = start_arg, end' = end_arg, repeat = repeat_arg,
      tags = tags_arg, attributes = kwargs\<rparr>"

text \<open>The order the data model asks of a task's dates: when both are present, the start does
  not come after the end.\<close>

definition start_le_end :: "Task \<Rightarrow> bool" where
  "start_le_end t =
     (case (start t, end' t) of (Some s, Some e) \<Rightarrow> s \<le> e | _ \<Rightarrow> True)"

section \<open>cli.py: parse_cli\<close>

text \<open>
  \<^verbatim>\<open>
  def parse_cli(argv: list[str]) -> argparse.Namespace:
      parser = argparse.ArgumentParser(prog="PlanIt", description="A project management tool")
      commands = parser.add_subparsers(dest="command", required=False)
      list = commands.add_parser("list", aliases=["ls"], help="list tasks")
      add = commands.add_parser("add", help="edit tasks")
      return parser.parse_args(argv)
  \<close>
  \<open>parse_cli\<close> builds three parsers and hands \<open>argv\<close> to \<open>argparse\<close>. What it returns is
  decided by \<open>ArgumentParser.parse_args\<close> of the standard library, modelled here function by
  function from \<open>argparse.py\<close> of CPython 3.11, for the parsers this program builds:
  \<^item> \<open>parser\<close> (prog \<open>PlanIt\<close>) has the options \<open>-h\<close> and \<open>--help\<close> of its help action and one
    positional action, the subparsers action \<open>commands\<close> with \<open>dest="command"\<close>,
    \<open>nargs=PARSER\<close>, \<open>required=False\<close> and the default \<open>None\<close>;
  \<^item> \<open>list\<close> (prog \<open>PlanIt list\<close>, reached by the names \<open>list\<close> and \<open>ls\<close>) and \<open>add\<close>
    (prog \<open>PlanIt add\<close>) have the help action only.
  The defaults \<open>prefix_chars='-'\<close>, \<open>allow_abbrev=True\<close>, \<open>exit_on_error=True\<close> and no
  \<open>fromfile_prefix_chars\<close> hold for all three.
\<close>

datatype ArgumentParser = PlanIt | PlanIt_list | PlanIt_add

datatype Action = HelpAction | SubParsersAction

text \<open>The messages \<open>ArgumentParser.error\<close> is called with, by their format and arguments.\<close>

datatype message =
    Invalid_choice string
  | Unknown_parser string
  | Ignored_explicit_argument string
  | Ambiguous_option string "string list"
  | Unexpected_option_string string
  | Expected_arguments nat
  | Unrecognized_arguments "string list"

text \<open>
  The exceptions of the program. \<open>SystemExit_help p\<close> is \<open>p.print_help()\<close> followed by
  \<open>p.exit()\<close>: the help of \<open>p\<close> on standard output and exit status 0. \<open>SystemExit_error p m\<close>
  is \<open>p.error(m)\<close>: the usage of \<open>p\<close> and the message on standard error and exit status 2.
  An \<open>ArgumentError\<close> raised while \<open>p\<close> parses is caught by \<open>p.parse_known_args\<close> and passed
  to \<open>p.error\<close>, so the model raises \<open>SystemExit_error p\<close> where \<open>argparse\<close> raises
  \<open>ArgumentError\<close>.
\<close>

datatype exn =
    SystemExit_help ArgumentParser
  | SystemExit_error ArgumentParser message
  | AssertionError string
  | AttributeError string
  | IndexError

fun exit_status :: "exn \<Rightarrow> int option" where
  "exit_status (SystemExit_help p) = Some 0"
| "exit_status (SystemExit_error p m) = Some 2"
| "exit_status _ = None"

text \<open>
  A \<open>Namespace\<close>: its attributes by name, and apart from them the list that
  \<open>argparse\<close> keeps under \<open>_UNRECOGNIZED_ARGS_ATTR\<close> while it parses (\<open>None\<close> when the
  attribute is not set).
\<close>

record Namespace =
  vars :: "string \<rightharpoonup> object"
  unrecognized_args :: "string list option"

definition prefix_chars :: string where
  "prefix_chars = ''-''"

definition option_string_actions :: "(string \<times> Action) list" where
  "option_string_actions = [(''-h'', HelpAction), (''--help'', HelpAction)]"

definition name_parser_map :: "(string \<times> ArgumentParser) list" where
  "name_parser_map = [(''list'', PlanIt_list), (''ls'', PlanIt_list), (''add'', PlanIt_add)]"

fun positional_actions :: "ArgumentParser \<Rightarrow> Action option" where
  "positional_actions PlanIt = Some SubParsersAction"
| "positional_actions PlanIt_list = None"
| "positional_actions PlanIt_add = None"

text \<open>The namespace \<open>parse_known_args\<close> starts from: the default of every action that has
  a \<open>dest\<close>. Only \<open>commands\<close> has one.\<close>

fun defaults :: "ArgumentParser \<Rightarrow> Namespace" where
  "defaults PlanIt = \<lparr>vars = [''command'' \<mapsto> PyNone], unrecognized_args = None\<rparr>"
| "defaults PlanIt_list = \<lparr>vars = Map.empty, unrecognized_args = None\<rparr>"
| "defaults PlanIt_add = \<lparr>vars = Map.empty, unrecognized_args = None\<rparr>"

subsection \<open>Strings\<close>

definition startswith :: "string \<Rightarrow> string \<Rightarrow> bool" where
  "startswith s prefix = (take (length prefix) s = prefix)"

text \<open>\<open>s.partition(c)\<close>: the part before the first \<open>c\<close>, the separator found, the part after.\<close>

definition str_partition :: "string \<Rightarrow> char \<Rightarrow> string \<times> string \<times> string" where
  "str_partition s c =
     (case dropWhile (\<lambda>x. x \<noteq> c) s of
        [] \<Rightarrow> (s, [], [])
      | _ # after \<Rightarrow> (takeWhile (\<lambda>x. x \<noteq> c) s, [c], after))"

definition isdigit :: "char \<Rightarrow> bool" where
  "isdigit c = (c \<in> set ''0123456789'')"

text \<open>Where \<open>$\<close> matches: at the end of the string, and before a newline that ends it.\<close>

definition at_end :: "string \<Rightarrow> bool" where
  "at_end s = (s = [] \<or> s = [CHR 0x0A])"

text \<open>\<open>_negative_number_matcher.match\<close>, the expression \<^verbatim>\<open>^-\d+$|^-\d*\.\d+$\<close>. Among the
  code points below 256, \<^verbatim>\<open>\d\<close> matches the ten digits \<open>0\<close> to \<open>9\<close>.\<close>

definition negative_number_matcher :: "string \<Rightarrow> bool" where
  "negative_number_matcher s =
     (case s of
        [] \<Rightarrow> False
      | c # r \<Rightarrow>
          c = CHR ''-'' \<and>
          (let ds = takeWhile isdigit r; rest = dropWhile isdigit r in
             (ds \<noteq> [] \<and> at_end rest) \<or>
             (case rest of
                [] \<Rightarrow> False
              | d # frac \<Rightarrow>
                  d = CHR ''.'' \<and> takeWhile isdigit frac \<noteq> [] \<and>
                  at_end (dropWhile isdigit frac))))"

subsection \<open>Option strings\<close>

text \<open>An option tuple: the action (\<open>None\<close> for an option no action has), the option string,
  the separator and the explicit argument.\<close>

type_synonym option_tuple = "Action option \<times> string \<times> string option \<times> string option"

text \<open>
  \<open>_get_option_tuples\<close>. It is called on strings of two characters or more that start
  with a prefix character; the model returns no tuple on a shorter one.
\<close>

definition get_option_tuples :: "ArgumentParser \<Rightarrow> string \<Rightarrow> exn + option_tuple list" where
  "get_option_tuples p option_string =
     (case option_string of
        c0 # c1 # _ \<Rightarrow>
          if c0 \<in> set prefix_chars \<and> c1 \<in> set prefix_chars then
            (case str_partition option_string CHR ''='' of
               (option_prefix, sep, explicit_arg) \<Rightarrow>
                 Inr (map (\<lambda>(os, action).
                            (Some action, os,
                             if sep = [] then None else Some sep,
                             if sep = [] then None else Some explicit_arg))
                        (filter (\<lambda>(os, action). startswith os option_prefix)
                           option_string_actions)))
          else if c0 \<in> set prefix_chars \<and> c1 \<notin> set prefix_chars then
            Inr (concat (map (\<lambda>(os, action).
                                if os = take 2 option_string then
                                  [(Some action, os, Some [], Some (drop 2 option_string))]
                                else if startswith os option_string then
                                  [(Some action, os, None, None)]
                                else [])
                           option_string_actions))
          else Inl (SystemExit_error p (Unexpected_option_string option_string))
      | _ \<Rightarrow> Inr [])"

text \<open>\<open>_parse_optional\<close>: \<open>None\<close> for a string meant to be positional, else its option
  tuple.\<close>

definition parse_optional :: "ArgumentParser \<Rightarrow> string \<Rightarrow> exn + option_tuple option" where
  "parse_optional p arg_string =
     (if arg_string = [] then Inr None
      else if hd arg_string \<notin> set prefix_chars then Inr None
      else
        (case map_of option_string_actions arg_string of
           Some action \<Rightarrow> Inr (Some (Some action, arg_string, None, None))
         | None \<Rightarrow>
             if length arg_string = 1 then Inr None
             else
               (case str_partition arg_string CHR ''='' of
                  (option_string, sep, explicit_arg) \<Rightarrow>
                    (case (if sep \<noteq> [] then map_of option_string_actions option_string
                           else None) of
                       Some action \<Rightarrow>
                         Inr (Some (Some action, option_string, Some sep, Some explicit_arg))
                     | None \<Rightarrow>
                         (case get_option_tuples p arg_string of
                            Inl e \<Rightarrow> Inl e
                          | Inr (t1 # t2 # ts) \<Rightarrow>
                              Inl (SystemExit_error p
                                     (Ambiguous_option arg_string
                                        (map (\<lambda>t. fst (snd t)) (t1 # t2 # ts))))
                          | Inr [option_tuple] \<Rightarrow> Inr (Some option_tuple)
                          | Inr [] \<Rightarrow>
                              if negative_number_matcher arg_string then Inr None
                              else if CHR '' '' \<in> set arg_string then Inr None
                              else Inr (Some (None, arg_string, None, None)))))))"

text \<open>
  The first loop of \<open>_parse_known_args\<close> gives every argument string its character of
  \<open>arg_strings_pattern\<close>: \<open>A\<close> for an argument, \<open>O\<close> for an option (whose tuple goes to
  \<open>option_string_indices\<close>), \<open>-\<close> for the first \<open>--\<close>; all strings after that one are
  arguments. The model keeps each string together with its kind.
\<close>

datatype kind = Argument | Option option_tuple | DoubleDash

fun pattern_char :: "kind \<Rightarrow> char" where
  "pattern_char Argument = CHR ''A''"
| "pattern_char (Option t) = CHR ''O''"
| "pattern_char DoubleDash = CHR ''-''"

fun arg_strings_pattern :: "ArgumentParser \<Rightarrow> string list \<Rightarrow> exn + (string \<times> kind) list" where
  "arg_strings_pattern p [] = Inr []"
| "arg_strings_pattern p (arg_string # arg_strings) =
     (if arg_string = ''--'' then
        Inr ((arg_string, DoubleDash) # map (\<lambda>a. (a, Argument)) arg_strings)
      else
        (case parse_optional p arg_string of
           Inl e \<Rightarrow> Inl e
         | Inr option_tuple \<Rightarrow>
             (case arg_strings_pattern p arg_strings of
                Inl e \<Rightarrow> Inl e
              | Inr parts \<Rightarrow>
                  Inr ((arg_string,
                        case option_tuple of None \<Rightarrow> Argument | Some t \<Rightarrow> Option t) # parts))))"

subsection \<open>Matching and taking actions\<close>

text \<open>
  \<open>re.match\<close> of the \<open>nargs\<close> pattern of an action on a pattern string, as the length of
  its group: the help action is an option with \<open>nargs=0\<close>, whose pattern is \<^verbatim>\<open>()\<close>; the
  subparsers action has \<open>nargs=PARSER\<close>, whose pattern is \<^verbatim>\<open>(-*A[-AO]*)\<close>.
\<close>

fun match_nargs :: "Action \<Rightarrow> string \<Rightarrow> nat option" where
  "match_nargs HelpAction pattern = Some 0"
| "match_nargs SubParsersAction pattern =
     (case dropWhile (\<lambda>c. c = CHR ''-'') pattern of
        [] \<Rightarrow> None
      | c # rest \<Rightarrow>
          if c = CHR ''A'' then
            Some (length (takeWhile (\<lambda>c. c = CHR ''-'') pattern) + 1
                  + length (takeWhile (\<lambda>c. c \<in> set ''-AO'') rest))
          else None)"

definition match_argument :: "ArgumentParser \<Rightarrow> Action \<Rightarrow> string \<Rightarrow> exn + nat" where
  "match_argument p action pattern =
     (case match_nargs action pattern of
        None \<Rightarrow> Inl (SystemExit_error p (Expected_arguments 0))
      | Some n \<Rightarrow> Inr n)"

text \<open>\<open>_match_arguments_partial\<close> for the positional actions left, of which there is at most
  one: the lengths matched, none when the pattern does not match.\<close>

definition match_arguments_partial :: "Action option \<Rightarrow> string \<Rightarrow> nat list" where
  "match_arguments_partial actions pattern =
     (case actions of
        None \<Rightarrow> []
      | Some action \<Rightarrow> (case match_nargs action pattern of None \<Rightarrow> [] | Some n \<Rightarrow> [n]))"

text \<open>
  \<open>_SubParsersAction.__call__\<close>. The parameter \<open>sub\<close> is \<open>parse_known_args\<close> of the parser
  selected, called with a fresh namespace: the subparsers have no subparsers action of their
  own, so the recursion of \<open>argparse\<close> is one level deep and the model ties it below.
\<close>

definition SubParsersAction_call ::
  "(ArgumentParser \<Rightarrow> string list \<Rightarrow> exn + Namespace \<times> string list) \<Rightarrow> ArgumentParser
     \<Rightarrow> Namespace \<Rightarrow> string list \<Rightarrow> exn + Namespace" where
  "SubParsersAction_call sub p namespace values =
     (case values of
        [] \<Rightarrow> Inl IndexError
      | parser_name # arg_strings \<Rightarrow>
          (case map_of name_parser_map parser_name of
             None \<Rightarrow> Inl (SystemExit_error p (Unknown_parser parser_name))
           | Some parser \<Rightarrow>
               (case sub parser arg_strings of
                  Inl e \<Rightarrow> Inl e
                | Inr (subnamespace, unrecognized) \<Rightarrow>
                    Inr \<lparr>vars = (vars namespace)(''command'' \<mapsto> PyStr parser_name)
                                 ++ vars subnamespace,
                         unrecognized_args =
                           (if unrecognized = [] then unrecognized_args namespace
                            else Some ((case unrecognized_args namespace of
                                          None \<Rightarrow> [] | Some u \<Rightarrow> u) @ unrecognized))\<rparr>)))"

text \<open>
  \<open>take_action\<close> with \<open>_get_values\<close> and \<open>_check_value\<close>. The help action prints the help
  and exits. The values of the subparsers action are the argument strings as they are (a
  \<open>--\<close> is not stripped for \<open>nargs=PARSER\<close>), and the first of them must be one of the
  choices, the keys of \<open>name_parser_map\<close>.
\<close>

definition take_action ::
  "(ArgumentParser \<Rightarrow> string list \<Rightarrow> exn + Namespace \<times> string list) \<Rightarrow> ArgumentParser
     \<Rightarrow> Namespace \<Rightarrow> Action \<Rightarrow> string list \<Rightarrow> exn + Namespace" where
  "take_action sub p namespace action argument_strings =
     (case action of
        HelpAction \<Rightarrow> Inl (SystemExit_help p)
      | SubParsersAction \<Rightarrow>
          (case argument_strings of
             [] \<Rightarrow> Inl IndexError
           | value # _ \<Rightarrow>
               if map_of name_parser_map value = None then
                 Inl (SystemExit_error p (Invalid_choice value))
               else SubParsersAction_call sub p namespace argument_strings))"

type_synonym action_tuple = "Action \<times> string list \<times> string"

fun take_actions ::
  "(ArgumentParser \<Rightarrow> string list \<Rightarrow> exn + Namespace \<times> string list) \<Rightarrow> ArgumentParser
     \<Rightarrow> Namespace \<Rightarrow> action_tuple list \<Rightarrow> exn + Namespace" where
  "take_actions sub p namespace [] = Inr namespace"
| "take_actions sub p namespace ((action, args, option_string) # action_tuples) =
     (case take_action sub p namespace action args of
        Inl e \<Rightarrow> Inl e
      | Inr namespace' \<Rightarrow> take_actions sub p namespace' action_tuples)"

subsection \<open>consume_optional\<close>

text \<open>
  The \<open>while True\<close> loop of \<open>consume_optional\<close>, on its variables \<open>action\<close>,
  \<open>option_string\<close>, \<open>sep\<close>, \<open>explicit_arg\<close> and \<open>action_tuples\<close>. \<open>arg_string\<close> is the string at
  \<open>start_index\<close> and \<open>following\<close> are the strings after it. The result is the action tuples
  to take, the strings appended to \<open>extras\<close>, and the number of following strings consumed
  (\<open>stop - (start_index + 1)\<close>).
\<close>

function consume_optional_loop ::
  "ArgumentParser \<Rightarrow> string \<Rightarrow> (string \<times> kind) list \<Rightarrow> Action option \<Rightarrow> string
     \<Rightarrow> string option \<Rightarrow> string option \<Rightarrow> action_tuple list
     \<Rightarrow> exn + action_tuple list \<times> string list \<times> nat" where
  "consume_optional_loop p arg_string following action option_string sep explicit_arg
       action_tuples =
     (case action of
        None \<Rightarrow> Inr ([], [arg_string], 0)
      | Some act \<Rightarrow>
          (case explicit_arg of
             None \<Rightarrow>
               (case match_argument p act (map (\<lambda>x. pattern_char (snd x)) following) of
                  Inl e \<Rightarrow> Inl e
                | Inr arg_count \<Rightarrow>
                    Inr (action_tuples
                           @ [(act, map fst (take arg_count following), option_string)],
                         [], arg_count))
           | Some ea \<Rightarrow>
               (case match_argument p act ''A'' of
                  Inl e \<Rightarrow> Inl e
                | Inr arg_count \<Rightarrow>
                    if arg_count = 0 \<and> option_string ! 1 \<notin> set prefix_chars \<and> ea \<noteq> [] then
                      if (sep \<noteq> None \<and> sep \<noteq> Some []) \<or> hd ea \<in> set prefix_chars then
                        Inl (SystemExit_error p (Ignored_explicit_argument ea))
                      else
                        (case map_of option_string_actions [hd option_string, hd ea] of
                           Some act' \<Rightarrow>
                             if tl ea = [] then
                               consume_optional_loop p arg_string following (Some act')
                                 [hd option_string, hd ea] None None
                                 (action_tuples @ [(act, [], option_string)])
                             else if hd (tl ea) = CHR ''='' then
                               consume_optional_loop p arg_string following (Some act')
                                 [hd option_string, hd ea] (Some ''='') (Some (tl (tl ea)))
                                 (action_tuples @ [(act, [], option_string)])
                             else
                               consume_optional_loop p arg_string following (Some act')
                                 [hd option_string, hd ea] (Some []) (Some (tl ea))
                                 (action_tuples @ [(act, [], option_string)])
                         | None \<Rightarrow>
                             Inr (action_tuples @ [(act, [], option_string)],
                                  [hd option_string # ea], 0))
                    else if arg_count = 1 then
                      Inr (action_tuples @ [(act, [ea], option_string)], [], 0)
                    else Inl (SystemExit_error p (Ignored_explicit_argument ea)))))"
  by pat_completeness auto
termination
  by (relation "measure (\<lambda>(p, arg_string, following, action, option_string, sep, explicit_arg,
                          action_tuples). case explicit_arg of None \<Rightarrow> 0 | Some ea \<Rightarrow> Suc (length ea))")
     auto

declare consume_optional_loop.simps [simp del]

definition consume_optional ::
  "(ArgumentParser \<Rightarrow> string list \<Rightarrow> exn + Namespace \<times> string list) \<Rightarrow> ArgumentParser
     \<Rightarrow> Namespace \<Rightarrow> string \<Rightarrow> option_tuple \<Rightarrow> (string \<times> kind) list
     \<Rightarrow> exn + Namespace \<times> string list \<times> nat" where
  "consume_optional sub p namespace arg_string option_tuple following =
     (case option_tuple of
        (action, option_string, sep, explicit_arg) \<Rightarrow>
          (case consume_optional_loop p arg_string following action option_string sep
                  explicit_arg [] of
             Inl e \<Rightarrow> Inl e
           | Inr (action_tuples, extras, arg_count) \<Rightarrow>
               (case take_actions sub p namespace action_tuples of
                  Inl e \<Rightarrow> Inl e
                | Inr namespace' \<Rightarrow> Inr (namespace', extras, arg_count))))"

subsection \<open>consume_positionals and the main loop\<close>

text \<open>
  \<open>consume_positionals\<close> at \<open>start_index\<close>, where \<open>rest\<close> are the strings from
  \<open>start_index\<close> on: the number of strings consumed, the positional actions left and the
  namespace.
\<close>

definition consume_positionals ::
  "(ArgumentParser \<Rightarrow> string list \<Rightarrow> exn + Namespace \<times> string list) \<Rightarrow> ArgumentParser
     \<Rightarrow> Namespace \<Rightarrow> Action option \<Rightarrow> (string \<times> kind) list
     \<Rightarrow> exn + nat \<times> Action option \<times> Namespace" where
  "consume_positionals sub p namespace positionals rest =
     (case (positionals,
            match_arguments_partial positionals (map (\<lambda>x. pattern_char (snd x)) rest)) of
        (Some action, arg_count # _) \<Rightarrow>
          (case take_action sub p namespace action (map fst (take arg_count rest)) of
             Inl e \<Rightarrow> Inl e
           | Inr namespace' \<Rightarrow> Inr (arg_count, None, namespace'))
      | _ \<Rightarrow> Inr (0, positionals, namespace))"

text \<open>The strings before the next option string, that option string with its tuple and the
  strings after it; \<open>None\<close> when no option string is left (\<open>start_index\<close> is past
  \<open>max_option_string_index\<close>).\<close>

fun next_option ::
  "(string \<times> kind) list
     \<Rightarrow> ((string \<times> kind) list \<times> string \<times> option_tuple \<times> (string \<times> kind) list) option" where
  "next_option [] = None"
| "next_option ((arg_string, Option t) # rest) = Some ([], arg_string, t, rest)"
| "next_option (x # rest) =
     (case next_option rest of
        None \<Rightarrow> None
      | Some (preceding, arg_string, t, after) \<Rightarrow> Some (x # preceding, arg_string, t, after))"

lemma next_option_length:
  "next_option rest = Some (preceding, arg_string, t, after) \<Longrightarrow>
     length rest = length preceding + 1 + length after"
  by (induction rest arbitrary: preceding rule: next_option.induct)
     (auto split: option.splits)

text \<open>
  The loop \<open>while start_index <= max_option_string_index\<close> of \<open>_parse_known_args\<close> and
  the two statements after it, on the strings from \<open>start_index\<close> on. In the loop, the
  positionals are consumed when \<open>start_index\<close> is not at an option string; when they
  consumed something the loop starts over behind them, otherwise the strings before the
  next option string go to \<open>extras\<close> and the option string is consumed. After the loop the
  positionals are consumed once more and what is left goes to \<open>extras\<close>.
\<close>

function parse_loop ::
  "(ArgumentParser \<Rightarrow> string list \<Rightarrow> exn + Namespace \<times> string list) \<Rightarrow> ArgumentParser
     \<Rightarrow> Namespace \<Rightarrow> Action option \<Rightarrow> string list \<Rightarrow> (string \<times> kind) list
     \<Rightarrow> exn + Namespace \<times> string list" where
  "parse_loop sub p namespace positionals extras rest =
     (case next_option rest of
        None \<Rightarrow>
          (case consume_positionals sub p namespace positionals rest of
             Inl e \<Rightarrow> Inl e
           | Inr (stop, positionals', namespace') \<Rightarrow>
               Inr (namespace', extras @ map fst (drop stop rest)))
      | Some (preceding, arg_string, option_tuple, after) \<Rightarrow>
          if preceding \<noteq> [] then
            (case consume_positionals sub p namespace positionals rest of
               Inl e \<Rightarrow> Inl e
             | Inr (n, positionals', namespace') \<Rightarrow>
                 if n > 0 then parse_loop sub p namespace' positionals' extras (drop n rest)
                 else
                   (case consume_optional sub p namespace' arg_string option_tuple after of
                      Inl e \<Rightarrow> Inl e
                    | Inr (namespace'', skipped, arg_count) \<Rightarrow>
                        parse_loop sub p namespace'' positionals'
                          (extras @ map fst preceding @ skipped) (drop arg_count after)))
          else
            (case consume_optional sub p namespace arg_string option_tuple after of
               Inl e \<Rightarrow> Inl e
             | Inr (namespace', skipped, arg_count) \<Rightarrow>
                 parse_loop sub p namespace' positionals (extras @ skipped)
                   (drop arg_count after)))"
  by pat_completeness auto
termination
  by (relation "measure (\<lambda>(sub, p, namespace, positionals, extras, rest). length rest)")
     (auto dest: next_option_length)

declare parse_loop.simps [simp del]

subsection \<open>parse_known_args, parse_args, parse_cli\<close>

definition parse_known_args_with ::
  "(ArgumentParser \<Rightarrow> string list \<Rightarrow> exn + Namespace \<times> string list) \<Rightarrow> ArgumentParser
     \<Rightarrow> string list \<Rightarrow> exn + Namespace \<times> string list" where
  "parse_known_args_with sub p args =
     (case arg_strings_pattern p args of
        Inl e \<Rightarrow> Inl e
      | Inr rest \<Rightarrow>
          (case parse_loop sub p (defaults p) (positional_actions p) [] rest of
             Inl e \<Rightarrow> Inl e
           | Inr (namespace, extras) \<Rightarrow>
               (case unrecognized_args namespace of
                  None \<Rightarrow> Inr (namespace, extras)
                | Some unrecognized \<Rightarrow>
                    Inr (namespace\<lparr>unrecognized_args := None\<rparr>, extras @ unrecognized))))"

text \<open>\<open>parse_known_args\<close> of \<open>list\<close> and \<open>add\<close>, which have no positional action and so
  never call a parser below them, and of \<open>parser\<close>, whose subparsers action calls these.\<close>

definition subparser_parse_known_args ::
  "ArgumentParser \<Rightarrow> string list \<Rightarrow> exn + Namespace \<times> string list" where
  "subparser_parse_known_args = parse_known_args_with (\<lambda>p args. Inr (defaults p, args))"

definition parse_known_args ::
  "ArgumentParser \<Rightarrow> string list \<Rightarrow> exn + Namespace \<times> string list" where
  "parse_known_args = parse_known_args_with subparser_parse_known_args"

definition parse_args :: "ArgumentParser \<Rightarrow> string list \<Rightarrow> exn + Namespace" where
  "parse_args p args =
     (case parse_known_args p args of
        Inl e \<Rightarrow> Inl e
      | Inr (namespace, argv) \<Rightarrow>
          if argv \<noteq> [] then Inl (SystemExit_error p (Unrecognized_arguments argv))
          else Inr namespace)"

definition parse_cli :: "string list \<Rightarrow> exn + Namespace" where
  "parse_cli argv = parse_args PlanIt argv"

section \<open>main.py: main\<close>

text \<open>
  \<^verbatim>\<open>
  def main(argv: list[str]):
      args = cli.parse_cli(argv)
      if args.command == "list" or args.command == "ls" or args.command == None:
          print("All Todos:")
      elif args.command == "add":
          assert False, "Adding items not supported"
      else:
          assert False, "Unreachable"
  \<close>
  The result of \<open>main\<close> is the list of the lines it has printed together with the exception
  that ended it, or with \<open>()\<close> for the return of \<open>None\<close>. An \<open>assert\<close> is executed, as the
  interpreter does unless it is started with \<open>-O\<close>. \<open>command args\<close> is the attribute access
  \<open>args.command\<close>.
\<close>

definition command :: "Namespace \<Rightarrow> exn + object" where
  "command args =
     (case vars args ''command'' of
        None \<Rightarrow> Inl (AttributeError ''command'')
      | Some v \<Rightarrow> Inr v)"

definition main :: "string list \<Rightarrow> string list \<times> (exn + unit)" where
  "main argv =
     (case parse_cli argv of
        Inl e \<Rightarrow> ([], Inl e)
      | Inr args \<Rightarrow>
          (case command args of
             Inl e \<Rightarrow> ([], Inl e)
           | Inr c \<Rightarrow>
               if c = PyStr ''list'' \<or> c = PyStr ''ls'' \<or> c = PyNone then
                 ([''All Todos:''], Inr ())
               else if c = PyStr ''add'' then
                 ([], Inl (AssertionError ''Adding items not supported''))
               else ([], Inl (AssertionError ''Unreachable''))))"

text \<open>The parsed command of an argument list: \<open>cli.parse_cli(argv).command\<close>.\<close>

definition parsed_command :: "string list \<Rightarrow> exn + object" where
  "parsed_command argv =
     (case parse_cli argv of
        Inl e \<Rightarrow> Inl e
      | Inr args \<Rightarrow> command args)"

section \<open>Well-formed patterns\<close>

text \<open>
  What the proofs below need of the strings and kinds that \<open>arg_strings_pattern\<close> produces:
  no option tuple carries the subparsers action, the kind \<open>DoubleDash\<close> belongs to the string
  \<open>--\<close>, and every string after it is an argument.
\<close>

fun wf_parts :: "(string \<times> kind) list \<Rightarrow> bool" where
  "wf_parts [] = True"
| "wf_parts ((a, Argument) # rest) = wf_parts rest"
| "wf_parts ((a, Option t) # rest) = (fst t \<noteq> Some SubParsersAction \<and> wf_parts rest)"
| "wf_parts ((a, DoubleDash) # rest) = (a = ''--'' \<and> list_all (\<lambda>x. snd x = Argument) rest)"


section \<open>Properties of Task\<close>

lemma Task_init_simps:
  "id' (Task_init i n s e r ts kw) = i"
  "name (Task_init i n s e r ts kw) = n"
  "start (Task_init i n s e r ts kw) = s"
  "end' (Task_init i n s e r ts kw) = e"
  "repeat (Task_init i n s e r ts kw) = r"
  "tags (Task_init i n s e r ts kw) = ts"
  "attributes (Task_init i n s e r ts kw) = kw"
  by (simp_all add: Task_init_def)

text \<open>
  C2, as stated: every task with both dates present has \<open>start <= end\<close>, established at
  construction. The constructor checks nothing, so a task built with a start after its end
  breaks it.
\<close>

theorem start_le_end_counterexample:
  "\<not> start_le_end (Task_init 1 ''report'' (Some 20) (Some 10) None [] Map.empty)"
  by (simp add: start_le_end_def Task_init_simps)

text \<open>
  C2, amended: \<open>Task.__init__\<close> stores \<open>start\<close> and \<open>end\<close> as supplied and compares
  nothing, so the task it builds has \<open>start <= end\<close> (both present) exactly when the
  arguments supplied have.
\<close>

theorem Task_init_start_le_end:
  "start_le_end (Task_init i n s e r ts kw) =
     (case (s, e) of (Some a, Some b) \<Rightarrow> a \<le> b | _ \<Rightarrow> True)"
  by (simp add: start_le_end_def Task_init_simps)

text \<open>
  C3, as stated: after construction \<open>tags\<close> holds no duplicate and the order of the tags
  supplied does not matter. \<open>tags\<close> is the list supplied: a tag given twice is held twice,
  and two orders give two values.
\<close>

theorem tags_set_counterexample:
  "\<not> distinct (tags (Task_init 1 ''report'' None None None [''home'', ''home''] Map.empty))
   \<and> tags (Task_init 1 ''report'' None None None [''home'', ''work''] Map.empty)
       \<noteq> tags (Task_init 1 ''report'' None None None [''work'', ''home''] Map.empty)"
  by (simp add: Task_init_simps)

text \<open>
  C3, amended: after construction \<open>tags\<close> is the list of strings supplied, unchanged: the
  same elements in the same order, each as often as it was given. It has no duplicate
  exactly when the list supplied has none, and two constructions agree on \<open>tags\<close> exactly
  when they were given the same list.
\<close>

theorem Task_init_tags_list:
  "tags (Task_init i n s e r ts kw) = ts
   \<and> distinct (tags (Task_init i n s e r ts kw)) = distinct ts
   \<and> (tags (Task_init i n s e r ts kw) = tags (Task_init i n s e r ts' kw)) = (ts = ts')"
  by (simp add: Task_init_simps)

text \<open>
  C4: every keyword argument beyond the six parameters is kept in \<open>attributes\<close> under its
  own key with its own value, and nothing else is: the mapping of the task is the mapping
  of the extra keyword arguments.
\<close>

theorem Task_init_attributes:
  "attributes (Task_init i n s e r ts kw) = kw
   \<and> dom (attributes (Task_init i n s e r ts kw)) = dom kw
   \<and> attributes (Task_init i n s e r ts (kw(k \<mapsto> v))) k = Some v"
  by (simp add: Task_init_simps)

text \<open>
  C10: construction never fails and checks nothing. For every id, name, start, end, repeat
  and tags (the empty name and a start after the end among them) \<open>Task.__init__\<close> returns
  a task, and each named field of it is the argument supplied.
\<close>

theorem Task_init_total:
  "Task_init i n s e r ts kw =
     \<lparr>id' = i, name = n, start = s, end' = e, repeat = r, tags = ts, attributes = kw\<rparr>
   \<and> id' (Task_init i n s e r ts kw) = i
   \<and> name (Task_init i n s e r ts kw) = n
   \<and> start (Task_init i n s e r ts kw) = s
   \<and> end' (Task_init i n s e r ts kw) = e
   \<and> repeat (Task_init i n s e r ts kw) = r
   \<and> tags (Task_init i n s e r ts kw) = ts
   \<and> name (Task_init i [] (Some 20) (Some 10) r ts kw) = []
   \<and> start (Task_init i [] (Some 20) (Some 10) r ts kw) = Some 20
   \<and> end' (Task_init i [] (Some 20) (Some 10) r ts kw) = Some 10"
  by (simp add: Task_init_def)

section \<open>Properties of the parsers\<close>

subsection \<open>Option strings and consume_optional\<close>

text \<open>
  The only action an option string can reach is the help action. Consuming an option
  string of the help action ends the parse: it prints the help or reports an explicit
  argument it cannot use. Consuming an option string no action has puts the string on
  \<open>extras\<close> and changes nothing else.
\<close>

lemma match_argument_HelpAction: "match_argument p HelpAction pat = Inr 0"
  by (simp add: match_argument_def)

lemma map_of_option_string_actions:
  "map_of option_string_actions s = Some a \<Longrightarrow> a = HelpAction"
  by (auto simp: option_string_actions_def split: if_splits)

lemma consume_optional_loop_HelpAction:
  "action = Some HelpAction \<Longrightarrow>
   (\<exists>x. consume_optional_loop p a f action os sep ea tuples
          = Inl (SystemExit_error p (Ignored_explicit_argument x)))
   \<or> (\<exists>args os' ts sk n. consume_optional_loop p a f action os sep ea tuples
          = Inr (tuples @ (HelpAction, args, os') # ts, sk, n))"
proof (induction p a f action os sep ea tuples rule: consume_optional_loop.induct)
  case (1 p a f action os sep ea tuples)
  note IH = "1.IH" and act = "1.prems"
  show ?case
  proof (cases ea)
    case None
    then show ?thesis
      using act by (subst consume_optional_loop.simps, subst consume_optional_loop.simps)
        (simp add: match_argument_HelpAction)
  next
    case (Some e)
    show ?thesis
    proof (cases "os ! 1 \<notin> set prefix_chars \<and> e \<noteq> []")
      case False
      then show ?thesis
        using act Some by (subst consume_optional_loop.simps)
          (auto simp add: match_argument_HelpAction)
    next
      case True
      note c1 = this
      show ?thesis
      proof (cases "(sep \<noteq> None \<and> sep \<noteq> Some []) \<or> hd e \<in> set prefix_chars")
        case True
        then show ?thesis
          using act Some c1 by (subst consume_optional_loop.simps)
            (auto simp add: match_argument_HelpAction)
      next
        case False
        note c2 = this
        show ?thesis
        proof (cases "map_of option_string_actions [hd os, hd e]")
          case None
          then show ?thesis
            using act Some c1 c2 by (subst consume_optional_loop.simps)
              (auto simp add: match_argument_HelpAction)
        next
          case (Some act')
          then have a': "act' = HelpAction" by (rule map_of_option_string_actions)
          have m: "match_argument p HelpAction ''A'' = Inr 0"
            by (rule match_argument_HelpAction)
          have cond: "0 = 0 \<and> os ! 1 \<notin> set prefix_chars \<and> e \<noteq> []"
            using c1 by simp
          from act have act2: "action = Some HelpAction" .
          note IH1 = IH(1)[OF act2 \<open>ea = Some e\<close> m cond c2 Some]
          note IH2 = IH(2)[OF act2 \<open>ea = Some e\<close> m cond c2 Some]
          note IH3 = IH(3)[OF act2 \<open>ea = Some e\<close> m cond c2 Some]
          consider (A) "tl e = []" | (B) "tl e \<noteq> []" "hd (tl e) = CHR ''=''"
            | (C) "tl e \<noteq> []" "hd (tl e) \<noteq> CHR ''=''" by blast
          then show ?thesis
          proof cases
            case A
            from IH1[OF A] a' show ?thesis
              using act2 \<open>ea = Some e\<close> c1 c2 Some A
              by (subst consume_optional_loop.simps, subst consume_optional_loop.simps)
                 (auto simp add: match_argument_HelpAction)
          next
            case B
            from IH2[OF B] a' show ?thesis
              using act2 \<open>ea = Some e\<close> c1 c2 Some B
              by (subst consume_optional_loop.simps, subst consume_optional_loop.simps)
                 (auto simp add: match_argument_HelpAction)
          next
            case C
            from IH3[OF C] a' show ?thesis
              using act2 \<open>ea = Some e\<close> c1 c2 Some C
              by (subst consume_optional_loop.simps, subst consume_optional_loop.simps)
                 (auto simp add: match_argument_HelpAction)
          qed
        qed
      qed
    qed
  qed
qed


lemma consume_optional_None:
  "consume_optional sub p ns a (None, os, sep, ea) f = Inr (ns, [a], 0)"
  by (simp add: consume_optional_def consume_optional_loop.simps)

lemma consume_optional_HelpAction:
  "\<exists>e. consume_optional sub p ns a (Some HelpAction, os, sep, ea) f = Inl e
       \<and> exit_status e \<noteq> None"
proof -
  from consume_optional_loop_HelpAction[of "Some HelpAction" p a f os sep ea "[]"]
  consider (E) x where "consume_optional_loop p a f (Some HelpAction) os sep ea []
          = Inl (SystemExit_error p (Ignored_explicit_argument x))"
    | (T) args os' ts sk n where "consume_optional_loop p a f (Some HelpAction) os sep ea []
          = Inr ((HelpAction, args, os') # ts, sk, n)"
    by auto
  then show ?thesis
  proof cases
    case E
    then show ?thesis by (simp add: consume_optional_def)
  next
    case T
    then show ?thesis by (simp add: consume_optional_def take_action_def)
  qed
qed

lemma consume_optional_Inr:
  assumes "consume_optional sub p ns a t f = Inr (ns', sk, n)"
    and "fst t \<noteq> Some SubParsersAction"
  shows "fst t = None \<and> ns' = ns \<and> sk = [a] \<and> n = 0"
proof -
  obtain action os sep ea where t: "t = (action, os, sep, ea)" by (cases t) auto
  show ?thesis
  proof (cases action)
    case None
    with assms t show ?thesis by (simp add: consume_optional_None)
  next
    case (Some act)
    with assms(2) t have "act = HelpAction" by (cases act) auto
    with consume_optional_HelpAction[of sub p ns a os sep ea f] assms(1) t Some
    show ?thesis by auto
  qed
qed

lemma get_option_tuples_action:
  "get_option_tuples p s = Inr ts \<Longrightarrow> t \<in> set ts \<Longrightarrow> fst t = Some HelpAction"
  by (auto simp: get_option_tuples_def option_string_actions_def
           split: list.splits if_splits prod.splits)

lemma str_partition_head:
  "str_partition (c0 # c1 # s) CHR ''='' = (option_prefix, sep, explicit_arg) \<Longrightarrow>
   c0 \<noteq> CHR ''='' \<Longrightarrow> c1 \<noteq> CHR ''='' \<Longrightarrow> \<exists>r. option_prefix = c0 # c1 # r"
  by (auto simp: str_partition_def split: list.splits)

lemma get_option_tuples_short:
  assumes "get_option_tuples p s = Inr ts"
  shows "length ts \<le> 1"
proof (cases s)
  case Nil
  with assms show ?thesis by (simp add: get_option_tuples_def)
next
  case (Cons c0 s')
  show ?thesis
  proof (cases s')
    case Nil
    with assms Cons show ?thesis by (simp add: get_option_tuples_def)
  next
    case (Cons c1 s'')
    note s = \<open>s = c0 # s'\<close> \<open>s' = c1 # s''\<close>
    show ?thesis
    proof (cases "c0 \<in> set prefix_chars \<and> c1 \<in> set prefix_chars")
      case True
      then have c: "c0 = CHR ''-''" "c1 = CHR ''-''" by (simp_all add: prefix_chars_def)
      obtain option_prefix sep explicit_arg where
        part: "str_partition s CHR ''='' = (option_prefix, sep, explicit_arg)"
        by (cases "str_partition s CHR ''=''") auto
      with str_partition_head[of c0 c1 s'' option_prefix sep explicit_arg] s c
      obtain r where r: "option_prefix = CHR ''-'' # CHR ''-'' # r" by auto
      have "\<not> startswith ''-h'' option_prefix"
        by (simp add: startswith_def r)
      with assms s True part show ?thesis
        by (auto simp: get_option_tuples_def option_string_actions_def)
    next
      case False
      note F = this
      show ?thesis
      proof (cases "c0 \<in> set prefix_chars \<and> c1 \<notin> set prefix_chars")
        case True
        then have c: "c0 = CHR ''-''" "c1 \<noteq> CHR ''-''" by (simp_all add: prefix_chars_def)
        have "\<not> startswith ''--help'' s" using s c by (simp add: startswith_def)
        moreover have "''--help'' \<noteq> take 2 s" using s by simp
        moreover have "\<not> (''-h'' \<noteq> take 2 s \<and> startswith ''-h'' s)"
          using s by (auto simp add: startswith_def)
        ultimately show ?thesis
          using assms s True
          by (auto simp: get_option_tuples_def option_string_actions_def)
      next
        case False
        with assms s F show ?thesis by (auto simp: get_option_tuples_def)
      qed
    qed
  qed
qed

lemma get_option_tuples_Inr:
  "s \<noteq> [] \<Longrightarrow> hd s \<in> set prefix_chars \<Longrightarrow> \<exists>ts. get_option_tuples p s = Inr ts"
  by (auto simp: get_option_tuples_def split: list.splits prod.splits)


lemma parse_optional_cases:
  "parse_optional p a = Inr None
   \<or> (\<exists>os sep ea. parse_optional p a = Inr (Some (Some HelpAction, os, sep, ea)))
   \<or> parse_optional p a = Inr (Some (None, a, None, None))"
proof (cases "a = [] \<or> hd a \<notin> set prefix_chars")
  case True
  then show ?thesis by (auto simp: parse_optional_def)
next
  case False
  then have a: "a \<noteq> []" "hd a \<in> set prefix_chars" by auto
  show ?thesis
  proof (cases "map_of option_string_actions a")
    case (Some act)
    then have "act = HelpAction" by (rule map_of_option_string_actions)
    with Some a show ?thesis by (simp add: parse_optional_def)
  next
    case None
    note exact = this
    show ?thesis
    proof (cases "length a = 1")
      case True
      with a exact show ?thesis by (simp add: parse_optional_def)
    next
      case False
      note len = this
      obtain option_string sep explicit_arg where
        part: "str_partition a CHR ''='' = (option_string, sep, explicit_arg)"
        by (cases "str_partition a CHR ''=''") auto
      show ?thesis
      proof (cases "if sep \<noteq> [] then map_of option_string_actions option_string else None")
        case (Some act)
        then have "act = HelpAction"
          by (auto dest: map_of_option_string_actions split: if_splits)
        with Some a exact len part show ?thesis by (simp add: parse_optional_def)
      next
        case None
        from get_option_tuples_Inr[OF a] obtain ts where ts: "get_option_tuples p a = Inr ts"
          by blast
        from get_option_tuples_short[OF ts] have "ts = [] \<or> (\<exists>t. ts = [t])"
          by (cases ts) (auto simp: length_Suc_conv)
        then show ?thesis
        proof
          assume "ts = []"
          with None a exact len part ts show ?thesis by (simp add: parse_optional_def)
        next
          assume "\<exists>t. ts = [t]"
          then obtain t where t: "ts = [t]" by blast
          with get_option_tuples_action[OF ts, of t] have "fst t = Some HelpAction" by simp
          then obtain os s e where "t = (Some HelpAction, os, s, e)" by (cases t) auto
          with None a exact len part ts t show ?thesis by (simp add: parse_optional_def)
        qed
      qed
    qed
  qed
qed

lemma arg_strings_pattern_Inr:
  "\<exists>rest. arg_strings_pattern p args = Inr rest \<and> map fst rest = args \<and> wf_parts rest"
proof (induction args)
  case Nil
  then show ?case by simp
next
  case (Cons a args)
  then obtain rest where rest: "arg_strings_pattern p args = Inr rest" "map fst rest = args"
    "wf_parts rest" by blast
  show ?case
  proof (cases "a = ''--''")
    case True
    then show ?thesis by (simp add: list_all_iff comp_def)
  next
    case False
    with parse_optional_cases[of p a] rest show ?thesis by auto
  qed
qed

subsection \<open>The loop of a parser without positional actions\<close>

text \<open>
  When \<open>list\<close> or \<open>add\<close> parses without exiting, it leaves its namespace as it was and
  returns every argument string as an extra.
\<close>

lemma next_option_Argument:
  "list_all (\<lambda>x. snd x = Argument) rest \<Longrightarrow> next_option rest = None"
  by (induction rest rule: next_option.induct) auto

lemma next_option_Some:
  "next_option rest = Some (pre, a, t, after) \<Longrightarrow> wf_parts rest \<Longrightarrow>
     wf_parts after \<and> fst t \<noteq> Some SubParsersAction
     \<and> map fst rest = map fst pre @ a # map fst after"
  by (induction rest arbitrary: pre rule: next_option.induct)
     (auto split: option.splits simp: next_option_Argument)

lemma consume_positionals_None:
  "consume_positionals sub p ns None rest = Inr (0, None, ns)"
  by (simp add: consume_positionals_def match_arguments_partial_def)

lemma parse_loop_no_positionals:
  "parse_loop sub p ns positionals extras rest = Inr (ns', ex') \<Longrightarrow> positionals = None \<Longrightarrow>
   wf_parts rest \<Longrightarrow> ns' = ns \<and> ex' = extras @ map fst rest"
proof (induction sub p ns positionals extras rest rule: parse_loop.induct)
  case (1 sub p ns positionals extras rest)
  note pos = \<open>positionals = None\<close>
  show ?case
  proof (cases "next_option rest")
    case None
    with "1.prems" show ?thesis
      by (subst (asm) parse_loop.simps) (simp add: consume_positionals_None)
  next
    case (Some x)
    then obtain pre a t after where x: "next_option rest = Some (pre, a, t, after)"
      by (cases x) auto
    from next_option_Some[OF x \<open>wf_parts rest\<close>]
    have wf: "wf_parts after" "fst t \<noteq> Some SubParsersAction"
      and m: "map fst rest = map fst pre @ a # map fst after" by auto
    from "1.prems"(1) x pos
    obtain ns1 sk n where
      co: "consume_optional sub p ns a t after = Inr (ns1, sk, n)" and
      pl: "parse_loop sub p ns1 None (extras @ map fst pre @ sk) (drop n after) = Inr (ns', ex')"
      by (subst (asm) parse_loop.simps)
         (auto simp: consume_positionals_None split: sum.splits if_splits)
    from consume_optional_Inr[OF co wf(2)] have r: "ns1 = ns" "sk = [a]" "n = 0" by auto
    note co' = co[unfolded r]
    show ?thesis
    proof (cases "pre = []")
      case True
      then have c: "\<not> pre \<noteq> []" by simp
      from pl r pos True
      have pl': "parse_loop sub p ns positionals (extras @ [a]) (drop 0 after) = Inr (ns', ex')"
        by simp
      from "1.IH"(3)[OF x refl refl refl c co' refl refl pl' pos] wf m True
      show ?thesis by simp
    next
      case False
      have cp: "consume_positionals sub p ns positionals rest = Inr (0, None, ns)"
        using pos by (simp add: consume_positionals_None)
      have z: "\<not> 0 < (0::nat)" by simp
      from pl r pos
      have pl': "parse_loop sub p ns None (extras @ map fst pre @ [a]) (drop 0 after)
                   = Inr (ns', ex')"
        by simp
      from "1.IH"(2)[OF x refl refl refl False cp refl refl z co' refl refl pl' refl] wf m
      show ?thesis by simp
    qed
  qed
qed

lemma subparser_parse_known_args_Inr:
  assumes "subparser_parse_known_args p args = Inr (subns, unrec)" and "p \<noteq> PlanIt"
  shows "subns = defaults p \<and> unrec = args"
proof -
  from arg_strings_pattern_Inr[of p args] obtain rest where
    rest: "arg_strings_pattern p args = Inr rest" "map fst rest = args" "wf_parts rest"
    by blast
  from assms(2) have pos: "positional_actions p = None" by (cases p) auto
  have un: "unrecognized_args (defaults p) = None" by (cases p) auto
  from assms(1) rest(1) pos obtain ns ex where
    pl: "parse_loop (\<lambda>p args. Inr (defaults p, args)) p (defaults p) None [] rest = Inr (ns, ex)"
    by (auto simp: subparser_parse_known_args_def parse_known_args_with_def split: sum.splits)
  from parse_loop_no_positionals[OF pl refl rest(3)] rest(2)
  have "ns = defaults p" "ex = args" by auto
  with assms(1) rest(1) pos pl un show ?thesis
    by (auto simp: subparser_parse_known_args_def parse_known_args_with_def)
qed

lemma parse_loop_extras:
  "parse_loop sub p ns positionals extras rest = Inr (ns', ex') \<Longrightarrow>
     \<exists>more. ex' = extras @ more"
proof (induction sub p ns positionals extras rest rule: parse_loop.induct)
  case (1 sub p ns positionals extras rest)
  show ?case
  proof (cases "next_option rest")
    case None
    with "1.prems" show ?thesis
      by (subst (asm) parse_loop.simps) (auto split: sum.splits)
  next
    case (Some x)
    then obtain pre a t after where x: "next_option rest = Some (pre, a, t, after)"
      by (cases x) auto
    show ?thesis
    proof (cases "pre = []")
      case True
      then have c: "\<not> pre \<noteq> []" by simp
      from "1.prems" x True obtain ns1 sk n where
        co: "consume_optional sub p ns a t after = Inr (ns1, sk, n)" and
        pl: "parse_loop sub p ns1 positionals (extras @ sk) (drop n after) = Inr (ns', ex')"
        by (subst (asm) parse_loop.simps) (auto split: sum.splits)
      from "1.IH"(3)[OF x refl refl refl c co refl refl pl] show ?thesis by auto
    next
      case False
      from "1.prems" x False obtain n pos1 ns1 where
        cp: "consume_positionals sub p ns positionals rest = Inr (n, pos1, ns1)"
        by (subst (asm) parse_loop.simps) (auto split: sum.splits)
      show ?thesis
      proof (cases "0 < n")
        case True
        from "1.prems" x False cp True
        have pl: "parse_loop sub p ns1 pos1 extras (drop n rest) = Inr (ns', ex')"
          by (subst (asm) parse_loop.simps) auto
        from "1.IH"(1)[OF x refl refl refl False cp refl refl True pl] show ?thesis .
      next
        case F: False
        from "1.prems" x False cp F obtain ns2 sk m where
          co: "consume_optional sub p ns1 a t after = Inr (ns2, sk, m)" and
          pl: "parse_loop sub p ns2 pos1 (extras @ map fst pre @ sk) (drop m after)
                 = Inr (ns', ex')"
          by (subst (asm) parse_loop.simps) (auto split: sum.splits)
        from "1.IH"(2)[OF x refl refl refl False cp refl refl F co refl refl pl]
        show ?thesis by auto
      qed
    qed
  qed
qed

subsection \<open>The loop of the main parser\<close>

text \<open>
  The subparsers action matches everything from the first string that is not an option
  string on. When the loop of \<open>parser\<close> ends with nothing unrecognized, the argument
  strings were none at all, or one of the three names alone.
\<close>

lemma takeWhile_pattern:
  "takeWhile (\<lambda>c. c = CHR ''-'' \<or> c = CHR ''A'' \<or> c = CHR ''O'')
       (map (\<lambda>x. pattern_char (snd x)) xs)
     = map (\<lambda>x. pattern_char (snd x)) xs"
proof (induction xs)
  case Nil
  then show ?case by simp
next
  case (Cons x xs)
  obtain a k where "x = (a, k)" by (cases x)
  with Cons show ?case by (cases k) auto
qed

lemma name_parser_map_Some:
  "map_of name_parser_map a = Some parser \<Longrightarrow>
     a \<in> {''list'', ''ls'', ''add''} \<and> parser \<noteq> PlanIt"
  by (auto simp: name_parser_map_def split: if_splits)

lemma take_action_SubParsersAction:
  assumes "take_action subparser_parse_known_args PlanIt ns SubParsersAction (a # args) = Inr ns1"
  shows "a \<in> {''list'', ''ls'', ''add''} \<and> vars ns1 = (vars ns)(''command'' \<mapsto> PyStr a)
         \<and> unrecognized_args ns1 =
             (if args = [] then unrecognized_args ns
              else Some ((case unrecognized_args ns of None \<Rightarrow> [] | Some u \<Rightarrow> u) @ args))"
proof -
  from assms obtain parser where p: "map_of name_parser_map a = Some parser"
    by (auto simp: take_action_def split: if_splits)
  from name_parser_map_Some[OF p] have a: "a \<in> {''list'', ''ls'', ''add''}"
    and np: "parser \<noteq> PlanIt" by auto
  from assms p obtain subns unrec where
    s: "subparser_parse_known_args parser args = Inr (subns, unrec)"
    by (auto simp: take_action_def SubParsersAction_call_def split: sum.splits)
  from subparser_parse_known_args_Inr[OF s np] have r: "subns = defaults parser" "unrec = args"
    by auto
  from np have v: "vars (defaults parser) = Map.empty" by (cases parser) auto
  from assms p s r v a show ?thesis
    by (auto simp: take_action_def SubParsersAction_call_def)
qed

lemma match_nargs_Argument:
  "match_nargs SubParsersAction (CHR ''A'' # map (\<lambda>x. pattern_char (snd x)) after)
     = Some (Suc (length after))"
  by (simp add: takeWhile_pattern)

lemma consume_positionals_Argument:
  "consume_positionals sub p ns (Some SubParsersAction) ((a, Argument) # after)
     = (case take_action sub p ns SubParsersAction (a # map fst after) of
          Inl e \<Rightarrow> Inl e
        | Inr ns' \<Rightarrow> Inr (Suc (length after), None, ns'))"
  using match_nargs_Argument[of after]
  by (simp add: consume_positionals_def match_arguments_partial_def del: match_nargs.simps)

lemma consume_positionals_Nil:
  "positionals \<noteq> Some HelpAction \<Longrightarrow>
     consume_positionals sub p ns positionals [] = Inr (0, positionals, ns)"
proof (cases positionals)
  case None
  then show ?thesis by (simp add: consume_positionals_def match_arguments_partial_def)
next
  case (Some action)
  assume "positionals \<noteq> Some HelpAction"
  with Some have "action = SubParsersAction" by (cases action) auto
  with Some show ?thesis by (simp add: consume_positionals_def match_arguments_partial_def)
qed

lemma parse_loop_Nil:
  "positionals \<noteq> Some HelpAction \<Longrightarrow>
     parse_loop sub p ns positionals extras [] = Inr (ns, extras)"
  by (subst parse_loop.simps) (simp add: consume_positionals_Nil)

lemma consume_positionals_DoubleDash:
  assumes "list_all (\<lambda>x. snd x = Argument) after"
  shows "consume_positionals sub p ns (Some SubParsersAction) ((a, DoubleDash) # after)
     = (if after = [] then Inr (0, Some SubParsersAction, ns)
        else (case take_action sub p ns SubParsersAction (a # map fst after) of
          Inl e \<Rightarrow> Inl e
        | Inr ns' \<Rightarrow> Inr (Suc (length after), None, ns')))"
proof (cases after)
  case Nil
  then show ?thesis
    by (simp add: consume_positionals_def match_arguments_partial_def)
next
  case (Cons x xs)
  with assms obtain b where x: "x = (b, Argument)" by (cases x) auto
  from Cons x show ?thesis
    by (simp add: consume_positionals_def match_arguments_partial_def takeWhile_pattern
             split: sum.splits)
qed


lemma parse_loop_PlanIt:
  assumes pl: "parse_loop subparser_parse_known_args PlanIt ns (Some SubParsersAction) [] rest
             = Inr (ns', ex')"
    and wf: "wf_parts rest"
    and un: "unrecognized_args ns = None"
    and ok: "ex' = []" "unrecognized_args ns' = None \<or> unrecognized_args ns' = Some []"
  shows "(rest = [] \<and> ns' = ns)
       \<or> (\<exists>a. rest = [(a, Argument)] \<and> a \<in> {''list'', ''ls'', ''add''}
              \<and> vars ns' = (vars ns)(''command'' \<mapsto> PyStr a))"
proof (cases rest)
  case Nil
  with pl show ?thesis by (simp add: parse_loop_Nil)
next
  case (Cons x after)
  obtain a k where x: "x = (a, k)" by (cases x)
  show ?thesis
  proof (cases k)
    case (Option t)
    with Cons x have no: "next_option rest = Some ([], a, t, after)" by simp
    from wf Cons x Option have t: "fst t \<noteq> Some SubParsersAction" by simp
    from pl no obtain ns1 sk n where
      co: "consume_optional subparser_parse_known_args PlanIt ns a t after = Inr (ns1, sk, n)"
      and pl1: "parse_loop subparser_parse_known_args PlanIt ns1 (Some SubParsersAction) sk
                  (drop n after) = Inr (ns', ex')"
      by (subst (asm) parse_loop.simps) (auto split: sum.splits)
    from consume_optional_Inr[OF co t] have "sk = [a]" by simp
    with parse_loop_extras[OF pl1] ok(1) show ?thesis by simp
  next
    case DoubleDash
    with wf Cons x have a: "a = ''--''" and ar: "list_all (\<lambda>x. snd x = Argument) after"
      by simp_all
    from ar have "next_option after = None" by (rule next_option_Argument)
    with Cons x DoubleDash have no: "next_option rest = None" by simp
    have na: "map_of name_parser_map ''--'' = None" by (simp add: name_parser_map_def)
    show ?thesis
    proof (cases "after = []")
      case True
      with pl no Cons x DoubleDash ar ok(1) show ?thesis
        by (subst (asm) parse_loop.simps) (simp add: consume_positionals_DoubleDash)
    next
      case False
      with pl no Cons x DoubleDash ar a na show ?thesis
        by (subst (asm) parse_loop.simps)
           (simp add: consume_positionals_DoubleDash take_action_def)
    qed
  next
    case Argument
    note cp = consume_positionals_Argument[of subparser_parse_known_args PlanIt ns a after]
    have "\<exists>ns1. take_action subparser_parse_known_args PlanIt ns SubParsersAction
                  (a # map fst after) = Inr ns1 \<and> ns' = ns1"
    proof (cases "next_option rest")
      case None
      with pl Cons x Argument cp show ?thesis
        by (subst (asm) parse_loop.simps) (auto split: sum.splits)
    next
      case (Some y)
      then obtain pre b t after' where no: "next_option rest = Some (pre, b, t, after')"
        by (cases y) auto
      with Cons x Argument have pre: "pre \<noteq> []" by (auto split: option.splits)
      from pl no pre Cons x Argument cp show ?thesis
        by (subst (asm) parse_loop.simps) (auto simp: parse_loop_Nil split: sum.splits)
    qed
    then have ta: "take_action subparser_parse_known_args PlanIt ns SubParsersAction
                  (a # map fst after) = Inr ns'" by auto
    from take_action_SubParsersAction[OF ta] un ok(2) Cons x Argument show ?thesis
      by (auto split: if_splits)
  qed
qed

subsection \<open>Failures are exits\<close>

text \<open>
  A parse that does not return a namespace ends in \<open>SystemExit\<close>. The \<open>IndexError\<close> of
  the model, the first value of a match without strings, does not happen: a match of the
  subparsers action is never empty.
\<close>

lemma pattern_chars:
  "set (map (\<lambda>x. pattern_char (snd x)) xs) \<subseteq> {CHR ''-'', CHR ''A'', CHR ''O''}"
proof (induction xs)
  case Nil
  then show ?case by simp
next
  case (Cons x xs)
  obtain a k where "x = (a, k)" by (cases x)
  with Cons show ?case by (cases k) auto
qed

lemma match_nargs_length:
  assumes "match_nargs SubParsersAction pat = Some n"
    and "set pat \<subseteq> {CHR ''-'', CHR ''A'', CHR ''O''}"
  shows "n = length pat \<and> 0 < n"
proof -
  let ?d = "\<lambda>c. c = CHR ''-''"
  from assms(1) obtain r where
    d: "dropWhile ?d pat = CHR ''A'' # r" and
    n: "n = length (takeWhile ?d pat) + 1
            + length (takeWhile (\<lambda>c. c = CHR ''-'' \<or> c = CHR ''A'' \<or> c = CHR ''O'') r)"
    by (auto split: list.splits if_splits)
  have "set r \<subseteq> set pat"
    using set_dropWhileD[of _ ?d pat] d by auto
  with assms(2)
  have tw: "takeWhile (\<lambda>c. c = CHR ''-'' \<or> c = CHR ''A'' \<or> c = CHR ''O'') r = r"
    by (auto simp: takeWhile_eq_all_conv)
  have "pat = takeWhile ?d pat @ dropWhile ?d pat" by simp
  then have "length pat = length (takeWhile ?d pat) + length (dropWhile ?d pat)"
    by (metis length_append)
  then show ?thesis using n d by (simp add: tw)
qed

lemma consume_positionals_Inr:
  assumes "consume_positionals sub p ns positionals rest = Inr (n, positionals', ns')"
    and "positionals \<noteq> Some HelpAction"
  shows "(n = 0 \<and> positionals' = positionals \<and> ns' = ns)
       \<or> (n = length rest \<and> 0 < n \<and> positionals' = None)"
proof (cases positionals)
  case None
  with assms show ?thesis by (simp add: consume_positionals_None)
next
  case (Some action)
  with assms(2) have a: "action = SubParsersAction" by (cases action) auto
  show ?thesis
  proof (cases "match_nargs SubParsersAction (map (\<lambda>x. pattern_char (snd x)) rest)")
    case None
    with assms(1) Some a show ?thesis
      by (simp add: consume_positionals_def match_arguments_partial_def)
  next
    case (Some m)
    from match_nargs_length[OF Some pattern_chars] have m: "m = length rest" "0 < m" by auto
    from assms(1) Some \<open>positionals = Some action\<close> a have "n = m \<and> positionals' = None"
      by (auto simp: consume_positionals_def match_arguments_partial_def split: sum.splits)
    with m show ?thesis by simp
  qed
qed

lemma take_action_Inl:
  assumes "take_action sub p ns action args = Inl e" and "args \<noteq> []"
    and "\<And>p' a' e'. sub p' a' = Inl e' \<Longrightarrow> exit_status e' \<noteq> None"
  shows "exit_status e \<noteq> None"
proof (cases action)
  case HelpAction
  with assms(1) show ?thesis by (auto simp: take_action_def)
next
  case SubParsersAction
  from assms(2) obtain v vs where args: "args = v # vs" by (cases args) auto
  show ?thesis
  proof (cases "map_of name_parser_map v")
    case None
    with assms(1) SubParsersAction args show ?thesis by (auto simp: take_action_def)
  next
    case (Some parser)
    show ?thesis
    proof (cases "sub parser vs")
      case (Inl e')
      with assms(1) SubParsersAction args Some have "e = e'"
        by (simp add: take_action_def SubParsersAction_call_def)
      with assms(3)[OF Inl] show ?thesis by simp
    next
      case (Inr x)
      with assms(1) SubParsersAction args Some show ?thesis
        by (cases x) (simp add: take_action_def SubParsersAction_call_def)
    qed
  qed
qed

lemma consume_positionals_Inl:
  assumes "consume_positionals sub p ns positionals rest = Inl e"
    and "positionals \<noteq> Some HelpAction"
    and "\<And>p' a' e'. sub p' a' = Inl e' \<Longrightarrow> exit_status e' \<noteq> None"
  shows "exit_status e \<noteq> None"
proof (cases positionals)
  case None
  with assms(1) show ?thesis by (simp add: consume_positionals_None)
next
  case (Some action)
  with assms(2) have a: "action = SubParsersAction" by (cases action) auto
  show ?thesis
  proof (cases "match_nargs SubParsersAction (map (\<lambda>x. pattern_char (snd x)) rest)")
    case None
    with assms(1) Some a show ?thesis
      by (simp add: consume_positionals_def match_arguments_partial_def)
  next
    case (Some m)
    from match_nargs_length[OF Some pattern_chars] have m: "m = length rest" "0 < m" by auto
    then have ne: "map fst (take m rest) \<noteq> []" by auto
    from assms(1) Some \<open>positionals = Some action\<close> a have
      "take_action sub p ns SubParsersAction (map fst (take m rest)) = Inl e"
      by (auto simp: consume_positionals_def match_arguments_partial_def split: sum.splits)
    from take_action_Inl[OF this ne assms(3)] show ?thesis .
  qed
qed

lemma consume_optional_Inl:
  assumes "consume_optional sub p ns a t f = Inl e" and "fst t \<noteq> Some SubParsersAction"
  shows "exit_status e \<noteq> None"
proof -
  obtain action os sep ea where t: "t = (action, os, sep, ea)" by (cases t) auto
  show ?thesis
  proof (cases action)
    case None
    with assms t show ?thesis by (simp add: consume_optional_None)
  next
    case (Some act)
    with assms(2) t have "act = HelpAction" by (cases act) auto
    with consume_optional_HelpAction[of sub p ns a os sep ea f] assms(1) t Some
    show ?thesis by auto
  qed
qed

lemma parse_loop_Inl:
  "parse_loop sub p ns positionals extras rest = Inl e \<Longrightarrow> wf_parts rest \<Longrightarrow>
   positionals \<noteq> Some HelpAction \<Longrightarrow>
   (\<And>p' a' e'. sub p' a' = Inl e' \<Longrightarrow> exit_status e' \<noteq> None) \<Longrightarrow>
   exit_status e \<noteq> None"
proof (induction sub p ns positionals extras rest rule: parse_loop.induct)
  case (1 sub p ns positionals extras rest)
  note sub = "1.prems"(4) and pos = "1.prems"(3)
  show ?case
  proof (cases "next_option rest")
    case None
    with "1.prems"(1) have "consume_positionals sub p ns positionals rest = Inl e"
      by (subst (asm) parse_loop.simps) (auto split: sum.splits)
    from consume_positionals_Inl[OF this pos sub] show ?thesis .
  next
    case (Some x)
    then obtain pre a t after where x: "next_option rest = Some (pre, a, t, after)"
      by (cases x) auto
    from next_option_Some[OF x \<open>wf_parts rest\<close>]
    have wf: "wf_parts after" "fst t \<noteq> Some SubParsersAction" by auto
    show ?thesis
    proof (cases "pre = []")
      case True
      then have c: "\<not> pre \<noteq> []" by simp
      show ?thesis
      proof (cases "consume_optional sub p ns a t after")
        case (Inl e')
        with "1.prems"(1) x True have "e = e'"
          by (subst (asm) parse_loop.simps) simp
        with consume_optional_Inl[OF Inl wf(2)] show ?thesis by simp
      next
        case (Inr y)
        then obtain ns1 sk n where
          co: "consume_optional sub p ns a t after = Inr (ns1, sk, n)" by (cases y) auto
        from consume_optional_Inr[OF co wf(2)] have n: "n = 0" by simp
        from "1.prems"(1) x True co
        have pl: "parse_loop sub p ns1 positionals (extras @ sk) (drop n after) = Inl e"
          by (subst (asm) parse_loop.simps) simp
        from wf(1) n have w: "wf_parts (drop n after)" by simp
        from "1.IH"(3)[OF x refl refl refl c co refl refl pl w pos sub] show ?thesis .
      qed
    next
      case False
      show ?thesis
      proof (cases "consume_positionals sub p ns positionals rest")
        case (Inl e')
        with "1.prems"(1) x False have "e = e'"
          by (subst (asm) parse_loop.simps) simp
        with consume_positionals_Inl[OF Inl pos sub] show ?thesis by simp
      next
        case (Inr y)
        then obtain n pos1 ns1 where
          cp: "consume_positionals sub p ns positionals rest = Inr (n, pos1, ns1)"
          by (cases y) auto
        from consume_positionals_Inr[OF cp pos]
        consider (Z) "n = 0" "pos1 = positionals" | (A) "n = length rest" "0 < n" "pos1 = None \<or> pos1 = positionals"
          by auto
        then show ?thesis
        proof cases
          case A
          from A(3) pos have p1: "pos1 \<noteq> Some HelpAction" by auto
          from "1.prems"(1) x False cp A
          have "parse_loop sub p ns1 pos1 extras [] = Inl e"
            by (subst (asm) parse_loop.simps) simp
          with parse_loop_Nil[OF p1] show ?thesis by simp
        next
          case Z
          then have z: "\<not> 0 < n" by simp
          show ?thesis
          proof (cases "consume_optional sub p ns1 a t after")
            case (Inl e')
            with "1.prems"(1) x False cp Z have "e = e'"
              by (subst (asm) parse_loop.simps) simp
            with consume_optional_Inl[OF Inl wf(2)] show ?thesis by simp
          next
            case (Inr y)
            then obtain ns2 sk m where
              co: "consume_optional sub p ns1 a t after = Inr (ns2, sk, m)" by (cases y) auto
            from consume_optional_Inr[OF co wf(2)] have m: "m = 0" by simp
            from "1.prems"(1) x False cp Z co
            have pl: "parse_loop sub p ns2 pos1 (extras @ map fst pre @ sk) (drop m after)
                        = Inl e"
              by (subst (asm) parse_loop.simps) simp
            from wf(1) m have w: "wf_parts (drop m after)" by simp
            from Z(2) pos have p1: "pos1 \<noteq> Some HelpAction" by simp
            from "1.IH"(2)[OF x refl refl refl False cp refl refl z co refl refl pl w p1 sub]
            show ?thesis .
          qed
        qed
      qed
    qed
  qed
qed


lemma parse_known_args_with_Inl:
  assumes "parse_known_args_with sub p args = Inl e"
    and "\<And>p' a' e'. sub p' a' = Inl e' \<Longrightarrow> exit_status e' \<noteq> None"
  shows "exit_status e \<noteq> None"
proof -
  from arg_strings_pattern_Inr[of p args] obtain rest where
    rest: "arg_strings_pattern p args = Inr rest" "wf_parts rest" by blast
  have pos: "positional_actions p \<noteq> Some HelpAction" by (cases p) auto
  from assms(1) rest(1) have
    "parse_loop sub p (defaults p) (positional_actions p) [] rest = Inl e"
    by (auto simp: parse_known_args_with_def split: sum.splits option.splits)
  from parse_loop_Inl[OF this rest(2) pos assms(2)] show ?thesis .
qed

lemma parse_cli_Inl:
  assumes "parse_cli argv = Inl e"
  shows "exit_status e = Some 0 \<or> exit_status e = Some 2"
proof -
  have sub: "exit_status e' \<noteq> None" if "subparser_parse_known_args p' a' = Inl e'"
    for p' a' e'
    using that unfolding subparser_parse_known_args_def
    by (rule parse_known_args_with_Inl) simp
  have "exit_status e \<noteq> None"
  proof (cases "parse_known_args PlanIt argv")
    case (Inl e')
    with assms have "e = e'" by (simp add: parse_cli_def parse_args_def)
    with Inl sub show ?thesis
      unfolding parse_known_args_def by (auto dest: parse_known_args_with_Inl)
  next
    case (Inr x)
    with assms show ?thesis
      by (cases x) (auto simp: parse_cli_def parse_args_def split: if_splits)
  qed
  then show ?thesis by (cases e) auto
qed

subsection \<open>parse_cli\<close>

text \<open>The argument lists that \<open>parse_cli\<close> accepts and the namespaces it returns for
  them.\<close>

lemma parse_cli_Inr:
  assumes "parse_cli argv = Inr args"
  shows "unrecognized_args args = None \<and>
         ((argv = [] \<and> vars args = [''command'' \<mapsto> PyNone])
          \<or> (\<exists>a. a \<in> {''list'', ''ls'', ''add''} \<and> argv = [a]
                  \<and> vars args = [''command'' \<mapsto> PyStr a]))"
proof -
  from arg_strings_pattern_Inr[of PlanIt argv] obtain rest where
    rest: "arg_strings_pattern PlanIt argv = Inr rest" "map fst rest = argv" "wf_parts rest"
    by blast
  from assms have pka: "parse_known_args PlanIt argv = Inr (args, [])"
    by (cases "parse_known_args PlanIt argv")
       (auto simp: parse_cli_def parse_args_def split: if_splits)
  define r where "r = parse_loop subparser_parse_known_args PlanIt (defaults PlanIt)
                        (Some SubParsersAction) [] rest"
  have eq: "parse_known_args PlanIt argv =
      (case r of
         Inl e \<Rightarrow> Inl e
       | Inr (namespace, extras) \<Rightarrow>
           (case unrecognized_args namespace of
              None \<Rightarrow> Inr (namespace, extras)
            | Some unrecognized \<Rightarrow>
                Inr (namespace\<lparr>unrecognized_args := None\<rparr>, extras @ unrecognized)))"
    by (simp add: parse_known_args_def parse_known_args_with_def rest(1) r_def)
  from pka eq obtain ns ex where r: "r = Inr (ns, ex)"
    by (cases r) auto
  then have pl: "parse_loop subparser_parse_known_args PlanIt (defaults PlanIt)
                   (Some SubParsersAction) [] rest = Inr (ns, ex)"
    by (simp add: r_def)
  have fin: "ex = []" "unrecognized_args ns = None \<or> unrecognized_args ns = Some []"
      "vars args = vars ns" "unrecognized_args args = None"
  proof -
    show "ex = []" using pka eq r by (cases "unrecognized_args ns") auto
    show "unrecognized_args ns = None \<or> unrecognized_args ns = Some []"
      using pka eq r by (cases "unrecognized_args ns") auto
    show "vars args = vars ns" using pka eq r by (cases "unrecognized_args ns") auto
    show "unrecognized_args args = None"
      using pka eq r by (cases "unrecognized_args ns") auto
  qed
  have un: "unrecognized_args (defaults PlanIt) = None" by simp
  from parse_loop_PlanIt[OF pl rest(3) un fin(1) fin(2)]
  consider (E) "rest = []" "ns = defaults PlanIt"
    | (C) a where "rest = [(a, Argument)]" "a \<in> {''list'', ''ls'', ''add''}"
        "vars ns = (vars (defaults PlanIt))(''command'' \<mapsto> PyStr a)"
    by blast
  then show ?thesis
  proof cases
    case E
    from E(1) rest(2) have "argv = []" by simp
    moreover from E(2) fin(3) have "vars args = [''command'' \<mapsto> PyNone]" by simp
    ultimately show ?thesis using fin(4) by blast
  next
    case C
    from C(1) rest(2) have "argv = [a]" by simp
    moreover from C(3) fin(3) have "vars args = [''command'' \<mapsto> PyStr a]" by simp
    ultimately show ?thesis using fin(4) C(2) by blast
  qed
qed

lemma parse_loop_invalid_choice:
  assumes "map_of name_parser_map a = None"
  shows "parse_loop sub PlanIt ns (Some SubParsersAction) extras ((a, Argument) # after)
           = Inl (SystemExit_error PlanIt (Invalid_choice a))"
proof -
  have cp: "consume_positionals sub PlanIt ns (Some SubParsersAction) ((a, Argument) # after)
              = Inl (SystemExit_error PlanIt (Invalid_choice a))"
    using assms by (simp add: consume_positionals_Argument take_action_def)
  show ?thesis
  proof (cases "next_option after")
    case None
    with cp show ?thesis by (subst parse_loop.simps) simp
  next
    case (Some y)
    then obtain pre b t after' where "next_option after = Some (pre, b, t, after')"
      by (cases y) auto
    with cp show ?thesis by (subst parse_loop.simps) simp
  qed
qed

lemma parse_cli_invalid_choice:
  assumes "a \<noteq> ''--''" and "parse_optional PlanIt a = Inr None"
    and "a \<notin> {''list'', ''ls'', ''add''}"
  shows "parse_cli (a # rest) = Inl (SystemExit_error PlanIt (Invalid_choice a))"
proof -
  from arg_strings_pattern_Inr[of PlanIt rest] obtain parts where
    "arg_strings_pattern PlanIt rest = Inr parts" by blast
  with assms(1,2) have
    asp: "arg_strings_pattern PlanIt (a # rest) = Inr ((a, Argument) # parts)" by simp
  from assms(3) have "map_of name_parser_map a = None"
    by (simp add: name_parser_map_def)
  from parse_loop_invalid_choice[OF this] asp show ?thesis
    by (simp add: parse_cli_def parse_args_def parse_known_args_def parse_known_args_with_def)
qed

lemma parse_cli_Nil:
  "parse_cli [] = Inr \<lparr>vars = [''command'' \<mapsto> PyNone], unrecognized_args = None\<rparr>"
  by (simp add: parse_cli_def parse_args_def parse_known_args_def parse_known_args_with_def
        parse_loop_Nil)

lemma parse_cli_subcommand:
  assumes "a \<in> {''list'', ''ls'', ''add''}"
  shows "parse_cli [a] = Inr \<lparr>vars = [''command'' \<mapsto> PyStr a], unrecognized_args = None\<rparr>"
proof -
  have "parsed_command [''list''] = Inr (PyStr ''list'')" by code_simp
  moreover have "parsed_command [''ls''] = Inr (PyStr ''ls'')" by code_simp
  moreover have "parsed_command [''add''] = Inr (PyStr ''add'')" by code_simp
  ultimately have "parsed_command [a] = Inr (PyStr a)" using assms by auto
  then have "\<exists>args. parse_cli [a] = Inr args"
    by (cases "parse_cli [a]") (auto simp: parsed_command_def)
  then obtain args where args: "parse_cli [a] = Inr args" by blast
  from parse_cli_Inr[OF args] have "unrecognized_args args = None"
    "vars args = [''command'' \<mapsto> PyStr a]" by auto
  then have "args = \<lparr>vars = [''command'' \<mapsto> PyStr a], unrecognized_args = None\<rparr>"
    by (cases args) simp
  with args show ?thesis by simp
qed



section \<open>Claims about parse_cli and main\<close>

text \<open>
  C1: for every argument list whose parsed command is \<open>add\<close>, \<open>main\<close> ends in the
  \<open>AssertionError\<close> with the message \<open>Adding items not supported\<close>. It has printed nothing
  and done nothing else by then, and it does not return.
\<close>

theorem main_add_aborts:
  "parsed_command argv = Inr (PyStr ''add'') \<Longrightarrow>
     main argv = ([], Inl (AssertionError ''Adding items not supported''))"
  by (cases "parse_cli argv") (auto simp: parsed_command_def main_def split: sum.splits)

text \<open>The argument list \<open>add\<close> is one with that parsed command.\<close>

theorem main_add_aborts_witness:
  "parsed_command [''add''] = Inr (PyStr ''add'')
   \<and> main [''add''] = ([], Inl (AssertionError ''Adding items not supported''))"
proof -
  have h: "parsed_command [''add''] = Inr (PyStr ''add'')" by code_simp
  from h main_add_aborts[OF h] show ?thesis by simp
qed

text \<open>
  C5: \<open>parse_cli\<close> knows the subcommands \<open>list\<close> (also written \<open>ls\<close>) and \<open>add\<close> and needs
  none. The empty argument list and each of the three names alone parse, to the command
  \<open>None\<close> and to the name given. A positional argument outside the three names in the
  place of the subcommand makes parsing fail, whatever follows it: \<open>parser.error\<close> reports
  the invalid choice and exits with status 2. That holds for every string \<open>argparse\<close> reads
  as positional (\<open>_parse_optional\<close> returns \<open>None\<close> for it), and so for every string that
  does not start with \<open>-\<close>. No other argument list parses at all.
\<close>

theorem parse_cli_subcommands:
  "parse_cli [] = Inr \<lparr>vars = [''command'' \<mapsto> PyNone], unrecognized_args = None\<rparr>
   \<and> parse_cli [''list'']
       = Inr \<lparr>vars = [''command'' \<mapsto> PyStr ''list''], unrecognized_args = None\<rparr>
   \<and> parse_cli [''ls'']
       = Inr \<lparr>vars = [''command'' \<mapsto> PyStr ''ls''], unrecognized_args = None\<rparr>
   \<and> parse_cli [''add'']
       = Inr \<lparr>vars = [''command'' \<mapsto> PyStr ''add''], unrecognized_args = None\<rparr>
   \<and> (\<forall>a rest. a \<noteq> ''--'' \<and> parse_optional PlanIt a = Inr None
          \<and> a \<notin> {''list'', ''ls'', ''add''} \<longrightarrow>
          parse_cli (a # rest) = Inl (SystemExit_error PlanIt (Invalid_choice a)))
   \<and> (\<forall>a rest. (a = [] \<or> hd a \<noteq> CHR ''-'') \<and> a \<notin> {''list'', ''ls'', ''add''} \<longrightarrow>
          parse_cli (a # rest) = Inl (SystemExit_error PlanIt (Invalid_choice a)))
   \<and> (\<forall>argv args. parse_cli argv = Inr args \<longrightarrow>
          argv \<in> {[], [''list''], [''ls''], [''add'']})"
proof -
  have ok: "argv \<in> {[], [''list''], [''ls''], [''add'']}" if "parse_cli argv = Inr args"
    for argv args
    using parse_cli_Inr[OF that] by blast
  have pos: "parse_cli (a # rest) = Inl (SystemExit_error PlanIt (Invalid_choice a))"
    if "a = [] \<or> hd a \<noteq> CHR ''-''" and "a \<notin> {''list'', ''ls'', ''add''}" for a rest
  proof -
    from that(1) have p: "parse_optional PlanIt a = Inr None"
      by (auto simp: parse_optional_def prefix_chars_def)
    from that(1) have n: "a \<noteq> ''--''" by auto
    from parse_cli_invalid_choice[OF n p that(2)] show ?thesis .
  qed
  have inv: "parse_cli (a # rest) = Inl (SystemExit_error PlanIt (Invalid_choice a))"
    if "a \<noteq> ''--'' \<and> parse_optional PlanIt a = Inr None \<and> a \<notin> {''list'', ''ls'', ''add''}"
    for a rest
    using that parse_cli_invalid_choice by blast
  have l: "parse_cli [''list'']
       = Inr \<lparr>vars = [''command'' \<mapsto> PyStr ''list''], unrecognized_args = None\<rparr>"
    by (rule parse_cli_subcommand) simp
  have s: "parse_cli [''ls'']
       = Inr \<lparr>vars = [''command'' \<mapsto> PyStr ''ls''], unrecognized_args = None\<rparr>"
    by (rule parse_cli_subcommand) simp
  have a: "parse_cli [''add'']
       = Inr \<lparr>vars = [''command'' \<mapsto> PyStr ''add''], unrecognized_args = None\<rparr>"
    by (rule parse_cli_subcommand) simp
  show ?thesis
  proof (intro conjI allI impI)
    show "parse_cli [] = Inr \<lparr>vars = [''command'' \<mapsto> PyNone], unrecognized_args = None\<rparr>"
      by (rule parse_cli_Nil)
  next
    show "parse_cli [''list'']
       = Inr \<lparr>vars = [''command'' \<mapsto> PyStr ''list''], unrecognized_args = None\<rparr>"
      by (rule l)
  next
    show "parse_cli [''ls'']
       = Inr \<lparr>vars = [''command'' \<mapsto> PyStr ''ls''], unrecognized_args = None\<rparr>"
      by (rule s)
  next
    show "parse_cli [''add'']
       = Inr \<lparr>vars = [''command'' \<mapsto> PyStr ''add''], unrecognized_args = None\<rparr>"
      by (rule a)
  next
    fix a rest
    assume "a \<noteq> ''--'' \<and> parse_optional PlanIt a = Inr None
              \<and> a \<notin> {''list'', ''ls'', ''add''}"
    then show "parse_cli (a # rest) = Inl (SystemExit_error PlanIt (Invalid_choice a))"
      by (rule inv)
  next
    fix a rest
    assume h: "(a = [] \<or> hd a \<noteq> CHR ''-'') \<and> a \<notin> {''list'', ''ls'', ''add''}"
    from h have h1: "a = [] \<or> hd a \<noteq> CHR ''-''" by (rule conjunct1)
    from h have h2: "a \<notin> {''list'', ''ls'', ''add''}" by (rule conjunct2)
    from h1 h2 show "parse_cli (a # rest) = Inl (SystemExit_error PlanIt (Invalid_choice a))"
      by (rule pos)
  next
    fix argv args
    assume "parse_cli argv = Inr args"
    then show "argv \<in> {[], [''list''], [''ls''], [''add'']}" by (rule ok)
  qed
qed

text \<open>The positional argument \<open>remove\<close> fails though the help option follows it, and \<open>ls\<close>
  is among the argument lists that parse.\<close>

theorem parse_cli_subcommands_witness:
  "parse_optional PlanIt ''remove'' = Inr None
   \<and> parse_cli [''remove'', ''-h''] = Inl (SystemExit_error PlanIt (Invalid_choice ''remove''))
   \<and> parse_cli [''ls'']
       = Inr \<lparr>vars = [''command'' \<mapsto> PyStr ''ls''], unrecognized_args = None\<rparr>
   \<and> [''ls''] \<in> {[], [''list''], [''ls''], [''add'']}"
proof -
  note t = parse_cli_subcommands
  note c = t[THEN conjunct2, THEN conjunct2, THEN conjunct1]
  note a = t[THEN conjunct2, THEN conjunct2, THEN conjunct2, THEN conjunct2, THEN conjunct1,
             rule_format]
  note b = t[THEN conjunct2, THEN conjunct2, THEN conjunct2, THEN conjunct2, THEN conjunct2,
             THEN conjunct2, rule_format]
  have p: "parse_optional PlanIt ''remove'' = Inr None"
    by (simp add: parse_optional_def prefix_chars_def)
  have n: "''remove'' \<noteq> ''--'' \<and> parse_optional PlanIt ''remove'' = Inr None
             \<and> ''remove'' \<notin> {''list'', ''ls'', ''add''}"
    using p by simp
  have r: "parse_cli [''remove'', ''-h'']
             = Inl (SystemExit_error PlanIt (Invalid_choice ''remove''))"
    by (rule a[OF n])
  have m: "[''ls''] \<in> {[], [''list''], [''ls''], [''add'']}"
    by (rule b[OF c])
  from p r c m show ?thesis by (intro conjI)
qed

text \<open>
  C8: with no argument, parsing succeeds with the command \<open>None\<close>, and \<open>main\<close> prints the
  header \<open>All Todos:\<close> and returns, which is all it does for \<open>list\<close> and for \<open>ls\<close>.
\<close>

theorem main_no_subcommand:
  "parse_cli [] = Inr \<lparr>vars = [''command'' \<mapsto> PyNone], unrecognized_args = None\<rparr>
   \<and> main [] = ([''All Todos:''], Inr ())
   \<and> main [''list''] = main []
   \<and> main [''ls''] = main []"
proof -
  have "main [] = ([''All Todos:''], Inr ())" by code_simp
  moreover have "main [''list''] = ([''All Todos:''], Inr ())" by code_simp
  moreover have "main [''ls''] = ([''All Todos:''], Inr ())" by code_simp
  ultimately show ?thesis using parse_cli_Nil by simp
qed

text \<open>
  C9: the assertion \<open>Unreachable\<close> never fires. Whenever \<open>parse_cli\<close> returns a namespace,
  its \<open>command\<close> is \<open>list\<close>, \<open>ls\<close>, \<open>add\<close> or \<open>None\<close>, so the last branch of \<open>main\<close> is
  dead; and when \<open>parse_cli\<close> does not return, \<open>main\<close> ends in its \<open>SystemExit\<close>.
\<close>

theorem main_unreachable_never_fires:
  "snd (main argv) \<noteq> Inl (AssertionError ''Unreachable'')
   \<and> (\<forall>args. parse_cli argv = Inr args \<longrightarrow>
          command args \<in> {Inr (PyStr ''list''), Inr (PyStr ''ls''), Inr (PyStr ''add''),
                            Inr PyNone})"
proof -
  have c: "command args \<in> {Inr (PyStr ''list''), Inr (PyStr ''ls''), Inr (PyStr ''add''),
                            Inr PyNone}" if "parse_cli argv = Inr args" for args
    using parse_cli_Inr[OF that] by (auto simp: command_def)
  have "snd (main argv) \<noteq> Inl (AssertionError ''Unreachable'')"
  proof (cases "parse_cli argv")
    case (Inl e)
    from parse_cli_Inl[OF Inl] have "e \<noteq> AssertionError ''Unreachable''" by auto
    with Inl show ?thesis by (simp add: main_def)
  next
    case (Inr args)
    with c[OF Inr] show ?thesis by (auto simp: main_def)
  qed
  with c show ?thesis by blast
qed

text \<open>The argument list \<open>ls\<close> parses, and its command is one of the four.\<close>

theorem main_unreachable_never_fires_witness:
  "parse_cli [''ls'']
     = Inr \<lparr>vars = [''command'' \<mapsto> PyStr ''ls''], unrecognized_args = None\<rparr>
   \<and> command \<lparr>vars = [''command'' \<mapsto> PyStr ''ls''], unrecognized_args = None\<rparr>
       \<in> {Inr (PyStr ''list''), Inr (PyStr ''ls''), Inr (PyStr ''add''), Inr PyNone}
   \<and> snd (main [''ls'']) \<noteq> Inl (AssertionError ''Unreachable'')"
proof -
  have p: "parse_cli [''ls'']
     = Inr \<lparr>vars = [''command'' \<mapsto> PyStr ''ls''], unrecognized_args = None\<rparr>"
    by (rule parse_cli_subcommand) simp
  from main_unreachable_never_fires[of "[''ls'']"] p show ?thesis by blast
qed

end
